theory Spec2Isabelle
  imports Main "HOL-Library.Word"
begin

section \<open>Basic types\<close>

text \<open>
  The two contracts, \<open>CryptoShield\<close> (the vault) and \<open>CZama\<close> (the ledger), are
  embedded as functions over their storage. A call either reverts with an error
  (\<open>Inl\<close>) or returns the updated storage (\<open>Inr\<close>).

  A ciphertext handle (\<open>euint64\<close>, \<open>ebool\<close>) is modelled by the value it decrypts
  to; the zero handle of a mapping slot that was never written decrypts to \<open>0\<close>.
  Events and the access-control grants (\<open>FHE.allowThis\<close>, \<open>FHE.allow\<close>) change
  neither the stored values nor the control flow and are not part of the state.
\<close>

type_synonym address = "160 word"
type_synonym uint256 = "256 word"
type_synonym uint64 = "64 word"
type_synonym euint64 = "64 word"
type_synonym ebool = bool
type_synonym externalEuint64 = "256 word"
type_synonym bytes = "8 word list"

datatype error =
    ZeroStakeAmount
  | StakeTooLarge
  | NoStake
  | ZeroWithdrawAmount
  | InsufficientStake
  | EthTransferFailed
  | UnauthorizedOwner address
  | UnauthorizedMinter address
  | InvalidMinter address
  | Panic
  | InvalidInputProof

text \<open>\<open>type(uint64).max\<close>, as a \<open>uint256\<close>.\<close>

definition uint64_max :: uint256 where
  "uint64_max = 18446744073709551615"

section \<open>The encrypted-arithmetic backend\<close>

text \<open>
  Modelled from the spec: the FHE library (\<open>FHE.asEuint64\<close>, \<open>FHE.le\<close>, \<open>FHE.and\<close>,
  \<open>FHE.select\<close>, \<open>FHE.add\<close>, \<open>FHE.sub\<close>) is not part of the sources. The spec's
  external interface gives: encode (plain to ciphertext), encrypted less-than-or-equal,
  encrypted boolean AND, encrypted conditional select, all over the 64-bit unsigned
  domain; the ledger uses the standard unguarded (wrapping) addition and subtraction.
\<close>

definition asEuint64 :: "uint64 \<Rightarrow> euint64" where
  "asEuint64 v = v"

definition FHE_le :: "euint64 \<Rightarrow> euint64 \<Rightarrow> ebool" where
  "FHE_le a b = (a \<le> b)"

definition FHE_and :: "ebool \<Rightarrow> ebool \<Rightarrow> ebool" where
  "FHE_and a b = (a \<and> b)"

definition FHE_select :: "ebool \<Rightarrow> euint64 \<Rightarrow> euint64 \<Rightarrow> euint64" where
  "FHE_select c a b = (if c then a else b)"

definition FHE_add :: "euint64 \<Rightarrow> euint64 \<Rightarrow> euint64" where
  "FHE_add a b = a + b"

definition FHE_sub :: "euint64 \<Rightarrow> euint64 \<Rightarrow> euint64" where
  "FHE_sub a b = a - b"

text \<open>
  Modelled from the spec: \<open>FHESafeMath.tryIncrease\<close> and \<open>FHESafeMath.tryDecrease\<close>
  are not part of the sources. The spec: the overflow-safe increase yields the candidate
  sum and an encrypted boolean that is true iff no overflow occurred, and is a no-op on
  failure; the safe decrease yields a boolean that is true iff \<open>delta \<le> oldValue\<close> and
  the clamped result (the old value when the boolean is false).
\<close>

definition tryIncrease :: "euint64 \<Rightarrow> euint64 \<Rightarrow> ebool \<times> euint64" where
  "tryIncrease oldValue delta =
     (let success = (unat oldValue + unat delta < 2 ^ 64)
      in (success, FHE_select success (FHE_add oldValue delta) oldValue))"

definition tryDecrease :: "euint64 \<Rightarrow> euint64 \<Rightarrow> ebool \<times> euint64" where
  "tryDecrease oldValue delta =
     (let success = FHE_le delta oldValue
      in (success, FHE_select success (FHE_sub oldValue delta) oldValue))"

section \<open>CZama: the confidential ledger\<close>

record CZama =
  owner :: address
  minter :: address
  balances :: "address \<Rightarrow> euint64"

text \<open>
  Modelled from the spec: \<open>_mint\<close> and \<open>_burn\<close> are inherited from the \<open>ERC7984\<close>
  base contract, which is not part of the sources. The spec: mint increases
  \<open>encryptedBalance[to]\<close> by the amount using the standard unguarded encrypted addition
  and returns the new encrypted balance handle; burn is symmetric and decreases the
  balance without clamping.
\<close>

definition ERC7984_mint :: "address \<Rightarrow> euint64 \<Rightarrow> CZama \<Rightarrow> error + euint64 \<times> CZama" where
  "ERC7984_mint to amount L =
     (let updated = FHE_add (balances L to) amount
      in Inr (updated, L\<lparr>balances := (balances L)(to := updated)\<rparr>))"

definition ERC7984_burn :: "address \<Rightarrow> euint64 \<Rightarrow> CZama \<Rightarrow> error + euint64 \<times> CZama" where
  "ERC7984_burn from amount L =
     (let updated = FHE_sub (balances L from) amount
      in Inr (updated, L\<lparr>balances := (balances L)(from := updated)\<rparr>))"

text \<open>\<open>constructor(address initialMinter)\<close>, deployed by \<open>sender\<close>.\<close>

definition CZama_constructor :: "address \<Rightarrow> address \<Rightarrow> error + CZama" where
  "CZama_constructor sender initialMinter =
     (if initialMinter = 0 then Inl (InvalidMinter initialMinter)
      else Inr \<lparr>owner = sender, minter = initialMinter, balances = (\<lambda>_. 0)\<rparr>)"

definition updateMinter :: "address \<Rightarrow> address \<Rightarrow> CZama \<Rightarrow> error + CZama" where
  "updateMinter sender newMinter L =
     (if sender \<noteq> owner L then Inl (UnauthorizedOwner sender)
      else if newMinter = 0 then Inl (InvalidMinter newMinter)
      else Inr (L\<lparr>minter := newMinter\<rparr>))"

definition mint :: "address \<Rightarrow> address \<Rightarrow> euint64 \<Rightarrow> CZama \<Rightarrow> error + euint64 \<times> CZama" where
  "mint sender to amount L =
     (if sender \<noteq> minter L then Inl (UnauthorizedMinter sender)
      else ERC7984_mint to amount L)"

definition burnFrom :: "address \<Rightarrow> address \<Rightarrow> euint64 \<Rightarrow> CZama \<Rightarrow> error + euint64 \<times> CZama" where
  "burnFrom sender from amount L =
     (if sender \<noteq> minter L then Inl (UnauthorizedMinter sender)
      else ERC7984_burn from amount L)"

section \<open>CryptoShield: the vault\<close>

record CryptoShield =
  stakedEncrypted :: "address \<Rightarrow> euint64"
  debtEncrypted :: "address \<Rightarrow> euint64"
  stakedPlain :: "address \<Rightarrow> uint256"

text \<open>
  The chain state the vault's calls run on: the vault's own storage, the storage of the
  ledger its immutable \<open>czama\<close> field points to, and the vault's own address (the
  \<open>msg.sender\<close> the ledger sees when the vault calls it).
\<close>

record chain =
  shield :: CryptoShield
  czama :: CZama
  shield_address :: address

definition CryptoShield_constructor :: CryptoShield where
  "CryptoShield_constructor =
     \<lparr>stakedEncrypted = (\<lambda>_. 0), debtEncrypted = (\<lambda>_. 0), stakedPlain = (\<lambda>_. 0)\<rparr>"

text \<open>
  \<open>stake()\<close>, called by \<open>sender\<close> with \<open>msg.value = v\<close>. The addition on \<open>uint256\<close>
  is checked (Solidity 0.8): it panics on overflow. \<open>uint64(msg.value)\<close> truncates.
\<close>

definition stake :: "address \<Rightarrow> uint256 \<Rightarrow> chain \<Rightarrow> error + chain" where
  "stake sender v s =
     (if v = 0 then Inl ZeroStakeAmount
      else if 2 ^ 256 \<le> unat (stakedPlain (shield s) sender) + unat v then Inl Panic
      else
        let nextPlain = stakedPlain (shield s) sender + v in
        if uint64_max < nextPlain then Inl StakeTooLarge
        else
          let amount = asEuint64 (ucast v);
              (ok, updated) = tryIncrease (stakedEncrypted (shield s) sender) amount
          in Inr (s\<lparr>shield := (shield s)
                     \<lparr>stakedPlain := (stakedPlain (shield s))(sender := nextPlain),
                      stakedEncrypted := (stakedEncrypted (shield s))(sender := updated)\<rparr>\<rparr>))"

text \<open>
  \<open>withdraw(amount)\<close>, called by \<open>sender\<close>. The base-asset transfer
  \<open>msg.sender.call{value: amount}("")\<close> is a collaborator: \<open>transfer to amount\<close> is
  the \<open>sent\<close> flag it reports. The receiver is taken not to call back into the vault.
  The subtraction cannot underflow after the \<open>InsufficientStake\<close> check.
\<close>

definition withdraw ::
  "(address \<Rightarrow> uint256 \<Rightarrow> bool) \<Rightarrow> address \<Rightarrow> uint256 \<Rightarrow> chain \<Rightarrow> error + chain" where
  "withdraw transfer sender amount s =
     (if amount = 0 then Inl ZeroWithdrawAmount
      else
        let currentPlain = stakedPlain (shield s) sender in
        if currentPlain < amount then Inl InsufficientStake
        else if uint64_max < amount then Inl StakeTooLarge
        else
          let encryptedAmount = asEuint64 (ucast amount);
              (ok, updated) = tryDecrease (stakedEncrypted (shield s) sender) encryptedAmount;
              s' = s\<lparr>shield := (shield s)
                     \<lparr>stakedPlain := (stakedPlain (shield s))(sender := currentPlain - amount),
                      stakedEncrypted := (stakedEncrypted (shield s))(sender := updated)\<rparr>\<rparr>;
              sent = transfer sender amount
          in if \<not> sent then Inl EthTransferFailed else Inr s')"

text \<open>
  \<open>borrow(encryptedAmount, inputProof)\<close>, called by \<open>sender\<close>. The input validator
  \<open>FHE.fromExternal\<close> is a collaborator: \<open>fromExternal sender encryptedAmount inputProof\<close>
  is \<open>Some\<close> of the validated amount, or \<open>None\<close> when the proof is rejected and the call
  reverts. The ledger is called with the vault as \<open>msg.sender\<close>; a revert there reverts
  the whole call.
\<close>

definition borrow ::
  "(address \<Rightarrow> externalEuint64 \<Rightarrow> bytes \<Rightarrow> euint64 option) \<Rightarrow>
     address \<Rightarrow> externalEuint64 \<Rightarrow> bytes \<Rightarrow> chain \<Rightarrow> error + chain" where
  "borrow fromExternal sender encryptedAmount inputProof s =
     (if stakedPlain (shield s) sender = 0 then Inl NoStake
      else
        case fromExternal sender encryptedAmount inputProof of
          None \<Rightarrow> Inl InvalidInputProof
        | Some amount \<Rightarrow>
            let currentDebt = debtEncrypted (shield s) sender;
                (increasedOk, increasedDebt) = tryIncrease currentDebt amount;
                withinCollateral = FHE_le increasedDebt (stakedEncrypted (shield s) sender);
                canBorrow = FHE_and increasedOk withinCollateral;
                finalDebt = FHE_select canBorrow increasedDebt currentDebt;
                s' = s\<lparr>shield := (shield s)
                       \<lparr>debtEncrypted := (debtEncrypted (shield s))(sender := finalDebt)\<rparr>\<rparr>;
                mintAmount = FHE_select canBorrow amount (asEuint64 0)
            in (case mint (shield_address s') sender mintAmount (czama s') of
                  Inl e \<Rightarrow> Inl e
                | Inr (newBalance, L') \<Rightarrow> Inr (s'\<lparr>czama := L'\<rparr>)))"

text \<open>\<open>repay(encryptedAmount, inputProof)\<close>, called by \<open>sender\<close>.\<close>

definition repay ::
  "(address \<Rightarrow> externalEuint64 \<Rightarrow> bytes \<Rightarrow> euint64 option) \<Rightarrow>
     address \<Rightarrow> externalEuint64 \<Rightarrow> bytes \<Rightarrow> chain \<Rightarrow> error + chain" where
  "repay fromExternal sender encryptedAmount inputProof s =
     (case fromExternal sender encryptedAmount inputProof of
        None \<Rightarrow> Inl InvalidInputProof
      | Some amount \<Rightarrow>
          let currentDebt = debtEncrypted (shield s) sender;
              (canRepay, updatedDebt) = tryDecrease currentDebt amount;
              s' = s\<lparr>shield := (shield s)
                     \<lparr>debtEncrypted := (debtEncrypted (shield s))(sender := updatedDebt)\<rparr>\<rparr>;
              burnAmount = FHE_select canRepay amount (asEuint64 0)
          in (case burnFrom (shield_address s') sender burnAmount (czama s') of
                Inl e \<Rightarrow> Inl e
              | Inr (newBalance, L') \<Rightarrow> Inr (s'\<lparr>czama := L'\<rparr>)))"

definition getEncryptedStake :: "address \<Rightarrow> chain \<Rightarrow> euint64" where
  "getEncryptedStake account s = stakedEncrypted (shield s) account"

definition getEncryptedDebt :: "address \<Rightarrow> chain \<Rightarrow> euint64" where
  "getEncryptedDebt account s = debtEncrypted (shield s) account"

section \<open>Transactions\<close>

text \<open>
  A call that reverts leaves the chain state as it was before the call; the state a
  transaction leaves behind and the error it reports, if any:
\<close>

definition transact :: "(chain \<Rightarrow> error + chain) \<Rightarrow> chain \<Rightarrow> error option \<times> chain" where
  "transact call s = (case call s of Inl e \<Rightarrow> (Some e, s) | Inr s' \<Rightarrow> (None, s'))"

text \<open>Running calls one after the other; the first revert stops the sequence.\<close>

definition and_then :: "error + chain \<Rightarrow> (chain \<Rightarrow> error + chain) \<Rightarrow> error + chain" where
  "and_then r call = (case r of Inl e \<Rightarrow> Inl e | Inr s \<Rightarrow> call s)"

section \<open>Invariants and reachable states\<close>

text \<open>The ciphertext mirror of an account's collateral decrypts to its plaintext stake.\<close>

definition mirrored :: "chain \<Rightarrow> address \<Rightarrow> bool" where
  "mirrored s a = (unat (stakedEncrypted (shield s) a) = unat (stakedPlain (shield s) a))"

text \<open>An account's decrypted debt is at most its decrypted stake.\<close>

definition collateralized :: "chain \<Rightarrow> address \<Rightarrow> bool" where
  "collateralized s a = (debtEncrypted (shield s) a \<le> stakedEncrypted (shield s) a)"

text \<open>
  The states the deployed system can be in: the two constructors give the first one, at
  whatever address the vault is deployed; every successful call, by any caller with any
  arguments and any behaviour of the two collaborators, gives the next. The token
  functions the ledger inherits (transfers, not part of the sources) change balances only.
\<close>

inductive reachable :: "chain \<Rightarrow> bool" where
  deployed: "CZama_constructor deployer initialMinter = Inr L \<Longrightarrow>
     reachable \<lparr>shield = CryptoShield_constructor, czama = L, shield_address = this\<rparr>"
| staked: "reachable s \<Longrightarrow> stake c v s = Inr s' \<Longrightarrow> reachable s'"
| withdrawn: "reachable s \<Longrightarrow> withdraw transfer c amount s = Inr s' \<Longrightarrow> reachable s'"
| borrowed: "reachable s \<Longrightarrow> borrow fromExternal c e p s = Inr s' \<Longrightarrow> reachable s'"
| repaid: "reachable s \<Longrightarrow> repay fromExternal c e p s = Inr s' \<Longrightarrow> reachable s'"
| minter_updated: "reachable s \<Longrightarrow> updateMinter c newMinter (czama s) = Inr L' \<Longrightarrow>
     reachable (s\<lparr>czama := L'\<rparr>)"
| minted: "reachable s \<Longrightarrow> mint c to a (czama s) = Inr (b, L') \<Longrightarrow>
     reachable (s\<lparr>czama := L'\<rparr>)"
| burned: "reachable s \<Longrightarrow> burnFrom c from a (czama s) = Inr (b, L') \<Longrightarrow>
     reachable (s\<lparr>czama := L'\<rparr>)"
| token_call: "reachable s \<Longrightarrow> reachable (s\<lparr>czama := (czama s)\<lparr>balances := B\<rparr>\<rparr>)"

section \<open>Example states\<close>

definition alice :: address where
  "alice = 0xA11CE"

definition vault :: address where
  "vault = 0x5111E1D"

definition admin :: address where
  "admin = 0xAD"

text \<open>Collaborators that accept every input proof as an encryption of \<open>n\<close>, and every transfer.\<close>

definition proves :: "euint64 \<Rightarrow> address \<Rightarrow> externalEuint64 \<Rightarrow> bytes \<Rightarrow> euint64 option" where
  "proves n sender encryptedAmount inputProof = Some n"

definition accepts :: "address \<Rightarrow> uint256 \<Rightarrow> bool" where
  "accepts to amount = True"

definition rejects :: "address \<Rightarrow> uint256 \<Rightarrow> bool" where
  "rejects to amount = False"

text \<open>
  The system as the deploy script leaves it (the ledger's minter rotated to the vault),
  with \<open>alice\<close> holding the given stake, debt and ledger balance.
\<close>

definition position :: "uint64 \<Rightarrow> euint64 \<Rightarrow> euint64 \<Rightarrow> chain" where
  "position stk debt bal =
     \<lparr>shield = \<lparr>stakedEncrypted = (\<lambda>_. 0)(alice := stk),
                debtEncrypted = (\<lambda>_. 0)(alice := debt),
                stakedPlain = (\<lambda>_. 0)(alice := ucast stk)\<rparr>,
      czama = \<lparr>owner = admin, minter = vault, balances = (\<lambda>_. 0)(alice := bal)\<rparr>,
      shield_address = vault\<rparr>"

section \<open>Arithmetic of the encrypted operations\<close>

lemma unat_uint64_max: "unat uint64_max = 18446744073709551615"
  by (simp add: uint64_max_def)

lemma tryIncrease_ok:
  "unat a + unat b < 2 ^ 64 \<Longrightarrow> tryIncrease a b = (True, a + b)"
  by (simp add: tryIncrease_def FHE_select_def FHE_add_def)

lemma tryIncrease_overflow:
  "\<not> unat a + unat b < 2 ^ 64 \<Longrightarrow> tryIncrease a b = (False, a)"
  by (simp add: tryIncrease_def FHE_select_def FHE_add_def)

lemma unat_add_64: "unat (a::64 word) + unat b < 2 ^ 64 \<Longrightarrow> unat (a + b) = unat a + unat b"
  using unat_add_lem [of a b] by simp

lemma unat_add_256: "unat (a::256 word) + unat b < 2 ^ 256 \<Longrightarrow> unat (a + b) = unat a + unat b"
  using unat_add_lem [of a b] by simp

lemma unat_ucast_down: "unat (v::256 word) < 2 ^ 64 \<Longrightarrow> unat (ucast v :: 64 word) = unat v"
  by (simp add: unsigned_ucast_eq take_bit_nat_eq_self)

lemma tryIncrease_snd_ge: "a \<le> snd (tryIncrease a b)"
proof (cases "unat a + unat b < 2 ^ 64")
  case True
  then show ?thesis by (simp add: tryIncrease_ok word_le_nat_alt unat_add_64)
next
  case False
  then show ?thesis by (simp add: tryIncrease_overflow)
qed

lemma tryDecrease_eq:
  "tryDecrease a b = (b \<le> a, if b \<le> a then a - b else a)"
  by (simp add: tryDecrease_def FHE_select_def FHE_sub_def FHE_le_def)

lemma stake_Inr:
  assumes "stake c v s = Inr s'"
  shows "v \<noteq> 0" and "unat (stakedPlain (shield s) c) + unat v < 2 ^ 64"
    and "s' = s\<lparr>shield := (shield s)
                  \<lparr>stakedPlain := (stakedPlain (shield s))(c := stakedPlain (shield s) c + v),
                   stakedEncrypted := (stakedEncrypted (shield s))
                     (c := snd (tryIncrease (stakedEncrypted (shield s) c) (ucast v)))\<rparr>\<rparr>"
proof -
  from assms show "v \<noteq> 0" by (auto simp: stake_def split: if_splits)
  from assms have no: "unat (stakedPlain (shield s) c) + unat v < 2 ^ 256"
    and le: "\<not> uint64_max < stakedPlain (shield s) c + v"
    by (auto simp: stake_def Let_def split: if_splits)
  from le no show "unat (stakedPlain (shield s) c) + unat v < 2 ^ 64"
    by (simp add: word_less_nat_alt unat_uint64_max unat_add_256)
  from assms show "s' = s\<lparr>shield := (shield s)
                  \<lparr>stakedPlain := (stakedPlain (shield s))(c := stakedPlain (shield s) c + v),
                   stakedEncrypted := (stakedEncrypted (shield s))
                     (c := snd (tryIncrease (stakedEncrypted (shield s) c) (ucast v)))\<rparr>\<rparr>"
    by (auto simp: stake_def Let_def asEuint64_def split: if_splits prod.splits)
qed

lemma mirrored_stake:
  assumes "mirrored s a" and "stake c v s = Inr s'"
  shows "mirrored s' a"
proof (cases "a = c")
  case False
  with assms show ?thesis by (simp add: stake_Inr(3) [OF assms(2)] mirrored_def)
next
  case True
  note b = stake_Inr(2) [OF assms(2)]
  then have v: "unat v < 2 ^ 64" by simp
  from assms(1) True have m: "unat (stakedEncrypted (shield s) c) = unat (stakedPlain (shield s) c)"
    by (simp add: mirrored_def)
  have "unat (stakedEncrypted (shield s) c) + unat (ucast v :: 64 word) < 2 ^ 64"
    using b m by (simp add: unat_ucast_down [OF v])
  then have "snd (tryIncrease (stakedEncrypted (shield s) c) (ucast v)) = stakedEncrypted (shield s) c + ucast v"
    and "unat (stakedEncrypted (shield s) c + ucast v) = unat (stakedPlain (shield s) c) + unat v"
    using m by (simp_all add: tryIncrease_ok unat_add_64 unat_ucast_down [OF v])
  moreover have "unat (stakedPlain (shield s) c + v) = unat (stakedPlain (shield s) c) + unat v"
    using b by (simp add: unat_add_256)
  ultimately show ?thesis
    using True by (simp add: stake_Inr(3) [OF assms(2)] mirrored_def)
qed

lemma withdraw_Inr:
  assumes "withdraw transfer c amount s = Inr s'"
  shows "amount \<noteq> 0" and "amount \<le> stakedPlain (shield s) c" and "unat amount < 2 ^ 64"
    and "transfer c amount"
    and "s' = s\<lparr>shield := (shield s)
                  \<lparr>stakedPlain := (stakedPlain (shield s))(c := stakedPlain (shield s) c - amount),
                   stakedEncrypted := (stakedEncrypted (shield s))
                     (c := snd (tryDecrease (stakedEncrypted (shield s) c) (ucast amount)))\<rparr>\<rparr>"
proof -
  from assms show "amount \<noteq> 0" by (auto simp: withdraw_def split: if_splits)
  from assms show "amount \<le> stakedPlain (shield s) c"
    by (auto simp: withdraw_def Let_def split: if_splits)
  from assms have "\<not> uint64_max < amount"
    by (auto simp: withdraw_def Let_def split: if_splits)
  then show "unat amount < 2 ^ 64"
    by (simp add: word_less_nat_alt unat_uint64_max)
  from assms show "transfer c amount"
    by (auto simp: withdraw_def Let_def split: if_splits prod.splits)
  from assms show "s' = s\<lparr>shield := (shield s)
                  \<lparr>stakedPlain := (stakedPlain (shield s))(c := stakedPlain (shield s) c - amount),
                   stakedEncrypted := (stakedEncrypted (shield s))
                     (c := snd (tryDecrease (stakedEncrypted (shield s) c) (ucast amount)))\<rparr>\<rparr>"
    by (auto simp: withdraw_def Let_def asEuint64_def split: if_splits prod.splits)
qed

lemma mirrored_withdraw:
  assumes "mirrored s a" and "withdraw transfer c amount s = Inr s'"
  shows "mirrored s' a"
proof (cases "a = c")
  case False
  with assms show ?thesis by (simp add: withdraw_Inr(5) [OF assms(2)] mirrored_def)
next
  case True
  note v = withdraw_Inr(3) [OF assms(2)]
  from withdraw_Inr(2) [OF assms(2)]
  have le: "unat amount \<le> unat (stakedPlain (shield s) c)" by (simp add: word_le_nat_alt)
  from assms(1) True have m: "unat (stakedEncrypted (shield s) c) = unat (stakedPlain (shield s) c)"
    by (simp add: mirrored_def)
  have le': "(ucast amount :: 64 word) \<le> stakedEncrypted (shield s) c"
    using le m by (simp add: word_le_nat_alt unat_ucast_down [OF v])
  have "unat (stakedEncrypted (shield s) c - ucast amount) = unat (stakedPlain (shield s) c) - unat amount"
    using le' m by (simp add: unat_sub unat_ucast_down [OF v])
  moreover have "unat (stakedPlain (shield s) c - amount) = unat (stakedPlain (shield s) c) - unat amount"
    using withdraw_Inr(2) [OF assms(2)] by (simp add: unat_sub)
  ultimately show ?thesis
    using True le' by (simp add: withdraw_Inr(5) [OF assms(2)] mirrored_def tryDecrease_eq)
qed

lemma borrow_unfold:
  "borrow fromExternal c e p s =
     (if stakedPlain (shield s) c = 0 then Inl NoStake
      else case fromExternal c e p of
        None \<Rightarrow> Inl InvalidInputProof
      | Some a \<Rightarrow>
          let ok = (unat (debtEncrypted (shield s) c) + unat a < 2 ^ 64 \<and>
                    debtEncrypted (shield s) c + a \<le> stakedEncrypted (shield s) c)
          in if shield_address s \<noteq> minter (czama s) then Inl (UnauthorizedMinter (shield_address s))
             else Inr (s\<lparr>shield := (shield s)\<lparr>debtEncrypted := (debtEncrypted (shield s))
                          (c := if ok then debtEncrypted (shield s) c + a else debtEncrypted (shield s) c)\<rparr>,
                        czama := (czama s)\<lparr>balances := (balances (czama s))
                          (c := balances (czama s) c + (if ok then a else 0))\<rparr>\<rparr>))"
  by (simp add: borrow_def mint_def ERC7984_mint_def Let_def tryIncrease_def FHE_select_def
        FHE_and_def FHE_le_def FHE_add_def asEuint64_def split: option.splits)

lemma borrow_Inr:
  assumes "borrow fromExternal c e p s = Inr s'"
  obtains a where "fromExternal c e p = Some a"
    and "stakedPlain (shield s) c \<noteq> 0"
    and "shield s' = (shield s)\<lparr>debtEncrypted := (debtEncrypted (shield s))
           (c := if unat (debtEncrypted (shield s) c) + unat a < 2 ^ 64 \<and>
                    debtEncrypted (shield s) c + a \<le> stakedEncrypted (shield s) c
                 then debtEncrypted (shield s) c + a else debtEncrypted (shield s) c)\<rparr>"
    and "shield_address s' = shield_address s"
    and "minter (czama s') = minter (czama s)"
    and "owner (czama s') = owner (czama s)"
proof (cases "fromExternal c e p")
  case None
  with assms show ?thesis by (simp add: borrow_unfold split: if_splits)
next
  case (Some a)
  with assms have np: "stakedPlain (shield s) c \<noteq> 0"
    by (simp add: borrow_unfold split: if_splits)
  with assms Some have w: "shield_address s = minter (czama s)"
    by (simp add: borrow_unfold Let_def split: if_splits)
  from assms Some np w have "s' = s\<lparr>shield := (shield s)\<lparr>debtEncrypted := (debtEncrypted (shield s))
           (c := if unat (debtEncrypted (shield s) c) + unat a < 2 ^ 64 \<and>
                    debtEncrypted (shield s) c + a \<le> stakedEncrypted (shield s) c
                 then debtEncrypted (shield s) c + a else debtEncrypted (shield s) c)\<rparr>,
          czama := (czama s)\<lparr>balances := (balances (czama s))
           (c := balances (czama s) c + (if unat (debtEncrypted (shield s) c) + unat a < 2 ^ 64 \<and>
                    debtEncrypted (shield s) c + a \<le> stakedEncrypted (shield s) c then a else 0))\<rparr>\<rparr>"
    by (simp add: borrow_unfold Let_def)
  then show ?thesis
    using Some np by (intro that [of a]) simp_all
qed

lemma repay_unfold:
  "repay fromExternal c e p s =
     (case fromExternal c e p of
        None \<Rightarrow> Inl InvalidInputProof
      | Some a \<Rightarrow>
          let ok = (a \<le> debtEncrypted (shield s) c)
          in if shield_address s \<noteq> minter (czama s) then Inl (UnauthorizedMinter (shield_address s))
             else Inr (s\<lparr>shield := (shield s)\<lparr>debtEncrypted := (debtEncrypted (shield s))
                          (c := if ok then debtEncrypted (shield s) c - a else debtEncrypted (shield s) c)\<rparr>,
                        czama := (czama s)\<lparr>balances := (balances (czama s))
                          (c := balances (czama s) c - (if ok then a else 0))\<rparr>\<rparr>))"
  by (simp add: repay_def burnFrom_def ERC7984_burn_def Let_def tryDecrease_eq FHE_select_def
        FHE_sub_def asEuint64_def split: option.splits)

lemma repay_Inr:
  assumes "repay fromExternal c e p s = Inr s'"
  obtains a where "fromExternal c e p = Some a"
    and "shield s' = (shield s)\<lparr>debtEncrypted := (debtEncrypted (shield s))
           (c := if a \<le> debtEncrypted (shield s) c
                 then debtEncrypted (shield s) c - a else debtEncrypted (shield s) c)\<rparr>"
    and "shield_address s' = shield_address s"
    and "minter (czama s') = minter (czama s)"
    and "owner (czama s') = owner (czama s)"
proof (cases "fromExternal c e p")
  case None
  with assms show ?thesis by (simp add: repay_unfold)
next
  case (Some a)
  with assms have w: "shield_address s = minter (czama s)"
    by (simp add: repay_unfold Let_def split: if_splits)
  from assms Some w have "s' = s\<lparr>shield := (shield s)\<lparr>debtEncrypted := (debtEncrypted (shield s))
           (c := if a \<le> debtEncrypted (shield s) c
                 then debtEncrypted (shield s) c - a else debtEncrypted (shield s) c)\<rparr>,
          czama := (czama s)\<lparr>balances := (balances (czama s))
           (c := balances (czama s) c - (if a \<le> debtEncrypted (shield s) c then a else 0))\<rparr>\<rparr>"
    by (simp add: repay_unfold Let_def)
  then show ?thesis
    using Some by (intro that [of a]) simp_all
qed

lemma mirrored_borrow:
  assumes "mirrored s a" and "borrow fromExternal c e p s = Inr s'"
  shows "mirrored s' a"
  using assms(2)
proof (rule borrow_Inr)
  fix x assume "shield s' = (shield s)\<lparr>debtEncrypted := (debtEncrypted (shield s))
           (c := if unat (debtEncrypted (shield s) c) + unat x < 2 ^ 64 \<and>
                    debtEncrypted (shield s) c + x \<le> stakedEncrypted (shield s) c
                 then debtEncrypted (shield s) c + x else debtEncrypted (shield s) c)\<rparr>"
  with assms(1) show ?thesis by (simp add: mirrored_def)
qed

lemma mirrored_repay:
  assumes "mirrored s a" and "repay fromExternal c e p s = Inr s'"
  shows "mirrored s' a"
  using assms(2)
proof (rule repay_Inr)
  fix x assume "shield s' = (shield s)\<lparr>debtEncrypted := (debtEncrypted (shield s))
           (c := if x \<le> debtEncrypted (shield s) c
                 then debtEncrypted (shield s) c - x else debtEncrypted (shield s) c)\<rparr>"
  with assms(1) show ?thesis by (simp add: mirrored_def)
qed

lemma collateralized_stake:
  assumes "collateralized s a" and "stake c v s = Inr s'"
  shows "collateralized s' a"
proof (cases "a = c")
  case False
  with assms show ?thesis by (simp add: stake_Inr(3) [OF assms(2)] collateralized_def)
next
  case True
  from assms(1) True have "debtEncrypted (shield s) c \<le> stakedEncrypted (shield s) c"
    by (simp add: collateralized_def)
  also have "\<dots> \<le> snd (tryIncrease (stakedEncrypted (shield s) c) (ucast v))"
    by (rule tryIncrease_snd_ge)
  finally show ?thesis
    using True by (simp add: stake_Inr(3) [OF assms(2)] collateralized_def)
qed

lemma collateralized_borrow:
  assumes "collateralized s a" and "borrow fromExternal c e p s = Inr s'"
  shows "collateralized s' a"
  using assms(2)
proof (rule borrow_Inr)
  fix x assume "shield s' = (shield s)\<lparr>debtEncrypted := (debtEncrypted (shield s))
           (c := if unat (debtEncrypted (shield s) c) + unat x < 2 ^ 64 \<and>
                    debtEncrypted (shield s) c + x \<le> stakedEncrypted (shield s) c
                 then debtEncrypted (shield s) c + x else debtEncrypted (shield s) c)\<rparr>"
  with assms(1) show ?thesis by (auto simp add: collateralized_def)
qed

lemma word_sub_le_self: "(x::64 word) \<le> d \<Longrightarrow> d - x \<le> d"
  by (simp add: word_le_nat_alt unat_sub)

lemma collateralized_repay:
  assumes "collateralized s a" and "repay fromExternal c e p s = Inr s'"
  shows "collateralized s' a"
  using assms(2)
proof (rule repay_Inr)
  fix x assume sh: "shield s' = (shield s)\<lparr>debtEncrypted := (debtEncrypted (shield s))
           (c := if x \<le> debtEncrypted (shield s) c
                 then debtEncrypted (shield s) c - x else debtEncrypted (shield s) c)\<rparr>"
  show ?thesis
  proof (cases "a = c \<and> x \<le> debtEncrypted (shield s) c")
    case False
    with assms(1) sh show ?thesis by (auto simp add: collateralized_def)
  next
    case True
    then have "debtEncrypted (shield s) c - x \<le> debtEncrypted (shield s) c"
      by (simp add: word_sub_le_self)
    also from assms(1) True have "\<dots> \<le> stakedEncrypted (shield s) c"
      by (simp add: collateralized_def)
    finally show ?thesis using True sh by (simp add: collateralized_def)
  qed
qed

lemma collateralized_withdraw:
  assumes "unat (debtEncrypted (shield s) c) + unat amount \<le> unat (stakedEncrypted (shield s) c)"
    and "collateralized s a" 
    and "withdraw transfer c amount s = Inr s'"
  shows "collateralized s' a"
proof (cases "a = c")
  case False
  with assms show ?thesis by (simp add: withdraw_Inr(5) [OF assms(3)] collateralized_def)
next
  case True
  note v = withdraw_Inr(3) [OF assms(3)]
  have le: "(ucast amount :: 64 word) \<le> stakedEncrypted (shield s) c"
    using assms(1) by (simp add: word_le_nat_alt unat_ucast_down [OF v])
  then have "unat (stakedEncrypted (shield s) c - ucast amount) = unat (stakedEncrypted (shield s) c) - unat amount"
    by (simp add: unat_sub unat_ucast_down [OF v])
  with assms(1) have "debtEncrypted (shield s) c \<le> stakedEncrypted (shield s) c - ucast amount"
    by (simp add: word_le_nat_alt)
  then show ?thesis
    using True le by (simp add: withdraw_Inr(5) [OF assms(3)] collateralized_def tryDecrease_eq)
qed

section \<open>The mirror invariant holds in every reachable state\<close>

lemma reachable_mirrored: "reachable s \<Longrightarrow> mirrored s a"
proof (induction rule: reachable.induct)
  case (deployed deployer initialMinter L this)
  show ?case by (simp add: mirrored_def CryptoShield_constructor_def)
next
  case (staked s c v s')
  then show ?case by (blast intro: mirrored_stake)
next
  case (withdrawn s transfer c amount s')
  then show ?case by (blast intro: mirrored_withdraw)
next
  case (borrowed s fromExternal c e p s')
  then show ?case by (blast intro: mirrored_borrow)
next
  case (repaid s fromExternal c e p s')
  then show ?case by (blast intro: mirrored_repay)
qed (simp_all add: mirrored_def)

lemma mirrored_bound:
  assumes "mirrored s a"
  shows "stakedPlain (shield s) a \<le> uint64_max"
proof -
  from assms have "unat (stakedPlain (shield s) a) = unat (stakedEncrypted (shield s) a)"
    by (simp add: mirrored_def)
  moreover have "unat (stakedEncrypted (shield s) a) < 2 ^ 64"
    using unsigned_less [of "stakedEncrypted (shield s) a"] by simp
  ultimately show ?thesis
    by (simp add: word_le_nat_alt unat_uint64_max)
qed

section \<open>The example states, evaluated\<close>

lemma position_fresh_reachable: "reachable (position 0 0 0)"
proof -
  have "CZama_constructor admin admin = Inr \<lparr>owner = admin, minter = admin, balances = (\<lambda>_. 0)\<rparr>"
    by (simp add: CZama_constructor_def admin_def)
  from reachable.deployed [OF this, of vault]
  have d: "reachable \<lparr>shield = CryptoShield_constructor,
          czama = \<lparr>owner = admin, minter = admin, balances = (\<lambda>_. 0)\<rparr>, shield_address = vault\<rparr>" .
  have "updateMinter admin vault \<lparr>owner = admin, minter = admin, balances = (\<lambda>_. 0)\<rparr> =
          Inr \<lparr>owner = admin, minter = vault, balances = (\<lambda>_. 0)\<rparr>"
    by (simp add: updateMinter_def vault_def)
  with d have "reachable (\<lparr>shield = CryptoShield_constructor,
          czama = \<lparr>owner = admin, minter = admin, balances = (\<lambda>_. 0)\<rparr>, shield_address = vault\<rparr>
          \<lparr>czama := \<lparr>owner = admin, minter = vault, balances = (\<lambda>_. 0)\<rparr>\<rparr>)"
    by (intro reachable.minter_updated [of _ admin vault]) simp_all
  then show ?thesis
    by (simp add: position_def CryptoShield_constructor_def fun_upd_idem)
qed

lemma stake_position: "stake alice 10 (position 0 0 0) = Inr (position 10 0 0)"
  by (simp add: stake_def position_def uint64_max_def tryIncrease_def asEuint64_def
        FHE_select_def FHE_add_def)

lemma borrow_position: "borrow (proves 10) alice 0 [] (position 10 0 0) = Inr (position 10 10 10)"
  by (simp add: borrow_unfold position_def proves_def)

lemma withdraw_position: "withdraw accepts alice 10 (position 10 10 10) = Inr (position 0 10 10)"
  by (simp add: withdraw_def position_def uint64_max_def tryDecrease_eq asEuint64_def accepts_def)

lemma position_staked_reachable: "reachable (position 10 0 0)"
  using position_fresh_reachable stake_position by (blast intro: reachable.staked)

lemma position_borrowed_reachable: "reachable (position 10 10 10)"
  using position_staked_reachable borrow_position by (blast intro: reachable.borrowed)

section \<open>Collateralization (C1)\<close>

text \<open>
  C1, as stated: in every reachable state and for every account the decrypted debt is at
  most the decrypted stake, each of \<open>stake\<close>, \<open>withdraw\<close>, \<open>borrow\<close> and \<open>repay\<close>
  preserving it. This fails for \<open>withdraw\<close>, which checks the plaintext stake only:
  after \<open>stake(10)\<close> and a borrow of \<open>10\<close>, the account is collateralized, and
  \<open>withdraw(10)\<close> succeeds and leaves debt \<open>10\<close> against stake \<open>0\<close>.
\<close>

theorem withdraw_breaks_collateral:
  "reachable (position 10 10 10) \<and> collateralized (position 10 10 10) alice \<and>
   withdraw accepts alice 10 (position 10 10 10) = Inr (position 0 10 10) \<and>
   reachable (position 0 10 10) \<and> \<not> collateralized (position 0 10 10) alice"
proof -
  have "reachable (position 0 10 10)"
    using position_borrowed_reachable withdraw_position by (blast intro: reachable.withdrawn)
  with position_borrowed_reachable show ?thesis
    by (simp add: withdraw_position) (simp add: collateralized_def position_def)
qed

text \<open>
  C1, amended: every successful \<open>stake\<close>, \<open>borrow\<close> and \<open>repay\<close> preserves
  debt \<open>\<le>\<close> stake on every account's record; a successful \<open>withdraw(amount)\<close> preserves
  it when the caller's debt plus \<open>amount\<close> is at most the caller's encrypted stake.
\<close>

theorem collateral_preserved:
  assumes "collateralized s a"
  shows "(stake c v s = Inr s1 \<longrightarrow> collateralized s1 a) \<and>
         (borrow fromExternal c e p s = Inr s2 \<longrightarrow> collateralized s2 a) \<and>
         (repay fromExternal' c e' p' s = Inr s3 \<longrightarrow> collateralized s3 a) \<and>
         (withdraw transfer c amount s = Inr s4 \<longrightarrow>
            unat (debtEncrypted (shield s) c) + unat amount \<le> unat (stakedEncrypted (shield s) c) \<longrightarrow>
            collateralized s4 a)"
  using assms
  by (blast intro: collateralized_stake collateralized_borrow collateralized_repay
        collateralized_withdraw)

theorem collateral_preserved_witness:
  "collateralized (position 10 5 5) alice \<and>
   stake alice 1 (position 10 5 5) = Inr (position 11 5 5) \<and>
     collateralized (position 11 5 5) alice \<and>
   borrow (proves 2) alice 0 [] (position 10 5 5) = Inr (position 10 7 7) \<and>
     collateralized (position 10 7 7) alice \<and>
   repay (proves 3) alice 0 [] (position 10 5 5) = Inr (position 10 2 2) \<and>
     collateralized (position 10 2 2) alice \<and>
   withdraw accepts alice 4 (position 10 5 5) = Inr (position 6 5 5) \<and>
   unat (debtEncrypted (shield (position 10 5 5)) alice) + unat (4 :: uint256)
     \<le> unat (stakedEncrypted (shield (position 10 5 5)) alice) \<and>
     collateralized (position 6 5 5) alice"
proof -
  have c: "collateralized (position 10 5 5) alice"
    by (simp add: collateralized_def position_def)
  have 1: "stake alice 1 (position 10 5 5) = Inr (position 11 5 5)"
    by (simp add: stake_def position_def uint64_max_def tryIncrease_def asEuint64_def
        FHE_select_def FHE_add_def)
  have 2: "borrow (proves 2) alice 0 [] (position 10 5 5) = Inr (position 10 7 7)"
    by (simp add: borrow_unfold position_def proves_def)
  have 3: "repay (proves 3) alice 0 [] (position 10 5 5) = Inr (position 10 2 2)"
    by (simp add: repay_unfold position_def proves_def)
  have 4: "withdraw accepts alice 4 (position 10 5 5) = Inr (position 6 5 5)"
    by (simp add: withdraw_def position_def uint64_max_def tryDecrease_eq asEuint64_def
        accepts_def)
  have 5: "unat (debtEncrypted (shield (position 10 5 5)) alice) + unat (4 :: uint256)
     \<le> unat (stakedEncrypted (shield (position 10 5 5)) alice)"
    by (simp add: position_def)
  from collateral_preserved [OF c, of alice 1 "position 11 5 5" "proves 2" 0 "[]"
      "position 10 7 7" "proves 3" 0 "[]" "position 10 2 2" accepts 4 "position 6 5 5"]
    c 1 2 3 4 5
  show ?thesis by simp
qed

section \<open>Borrow as an encrypted conditional update (C2)\<close>

text \<open>
  C2: for a caller with \<open>plainStake > 0\<close> and a validated amount \<open>a\<close>, with debt \<open>d\<close>
  and encrypted stake \<open>s\<close>, in the deployed system (the vault is the ledger's minter):
  \<open>borrow\<close> succeeds, stores \<open>d + a\<close> as the debt when \<open>d + a\<close> does not overflow 64 bits
  and \<open>d + a \<le> s\<close>, and \<open>d\<close> otherwise, and mints \<open>a\<close> to the caller under that same
  condition, and \<open>0\<close> otherwise. Nothing else changes, and the call does not revert when
  the collateral check fails.
\<close>

theorem borrow_select:
  assumes "stakedPlain (shield s) c \<noteq> 0"
    and "fromExternal c encryptedAmount inputProof = Some a"
    and "minter (czama s) = shield_address s"
  shows "borrow fromExternal c encryptedAmount inputProof s =
     Inr (s\<lparr>shield := (shield s)\<lparr>debtEncrypted := (debtEncrypted (shield s))
              (c := if unat (debtEncrypted (shield s) c) + unat a < 2 ^ 64 \<and>
                       unat (debtEncrypted (shield s) c) + unat a
                         \<le> unat (stakedEncrypted (shield s) c)
                    then debtEncrypted (shield s) c + a else debtEncrypted (shield s) c)\<rparr>,
            czama := (czama s)\<lparr>balances := (balances (czama s))
              (c := balances (czama s) c +
                    (if unat (debtEncrypted (shield s) c) + unat a < 2 ^ 64 \<and>
                        unat (debtEncrypted (shield s) c) + unat a
                          \<le> unat (stakedEncrypted (shield s) c)
                     then a else 0))\<rparr>\<rparr>)"
proof -
  have "unat (debtEncrypted (shield s) c) + unat a < 2 ^ 64 \<Longrightarrow>
          debtEncrypted (shield s) c + a \<le> stakedEncrypted (shield s) c \<longleftrightarrow>
          unat (debtEncrypted (shield s) c) + unat a \<le> unat (stakedEncrypted (shield s) c)"
    by (simp add: word_le_nat_alt unat_add_64)
  then have "(unat (debtEncrypted (shield s) c) + unat a < 2 ^ 64 \<and>
          debtEncrypted (shield s) c + a \<le> stakedEncrypted (shield s) c) =
         (unat (debtEncrypted (shield s) c) + unat a < 2 ^ 64 \<and>
          unat (debtEncrypted (shield s) c) + unat a \<le> unat (stakedEncrypted (shield s) c))"
    by blast
  with assms show ?thesis
    by (simp add: borrow_unfold Let_def)
qed

theorem borrow_select_witness:
  "stakedPlain (shield (position 10 4 4)) alice \<noteq> 0 \<and>
   proves 7 alice 0 [] = Some 7 \<and>
   minter (czama (position 10 4 4)) = shield_address (position 10 4 4) \<and>
   borrow (proves 7) alice 0 [] (position 10 4 4) = Inr (position 10 4 4) \<and>
   proves 6 alice 0 [] = Some 6 \<and>
   borrow (proves 6) alice 0 [] (position 10 4 4) = Inr (position 10 10 10)"
proof -
  have 1: "stakedPlain (shield (position 10 4 4)) alice \<noteq> 0"
    by (simp add: position_def)
  have 2: "proves 7 alice 0 [] = Some 7" and 3: "proves 6 alice 0 [] = Some 6"
    by (simp_all add: proves_def)
  have 4: "minter (czama (position 10 4 4)) = shield_address (position 10 4 4)"
    by (simp add: position_def)
  from borrow_select [where fromExternal = "proves 7" and a = 7, OF 1 2 4]
    borrow_select [where fromExternal = "proves 6" and a = 6, OF 1 3 4] 1 2 3 4
  show ?thesis by (simp add: position_def)
qed

section \<open>Atomicity of withdraw (C3)\<close>

text \<open>
  C3: if the base-asset transfer at the end of \<open>withdraw\<close> fails, the call fails and the
  chain state after the transaction is the state before it, so \<open>plainStake\<close> and
  \<open>encryptedStake\<close> are unchanged; when the three plaintext checks pass, the error is
  \<open>EthTransferFailed\<close>.
\<close>

theorem withdraw_atomic:
  assumes "\<not> transfer c amount"
  shows "snd (transact (withdraw transfer c amount) s) = s \<and>
         (\<exists>e. withdraw transfer c amount s = Inl e) \<and>
         (amount \<noteq> 0 \<and> amount \<le> stakedPlain (shield s) c \<and> amount \<le> uint64_max \<longrightarrow>
            withdraw transfer c amount s = Inl EthTransferFailed \<and>
            transact (withdraw transfer c amount) s = (Some EthTransferFailed, s))"
  using assms
  by (simp add: withdraw_def transact_def Let_def not_less [symmetric] split: prod.splits)

theorem withdraw_atomic_witness:
  "\<not> rejects alice 4 \<and>
   (4 :: uint256) \<noteq> 0 \<and> 4 \<le> stakedPlain (shield (position 10 0 0)) alice \<and>
   (4 :: uint256) \<le> uint64_max \<and>
   withdraw rejects alice 4 (position 10 0 0) = Inl EthTransferFailed \<and>
   transact (withdraw rejects alice 4) (position 10 0 0) = (Some EthTransferFailed, position 10 0 0)"
proof -
  have 1: "\<not> rejects alice 4" by (simp add: rejects_def)
  have 2: "(4 :: uint256) \<noteq> 0 \<and> 4 \<le> stakedPlain (shield (position 10 0 0)) alice \<and>
           (4 :: uint256) \<le> uint64_max"
    by (simp add: position_def uint64_max_def)
  from withdraw_atomic [where transfer = rejects and s = "position 10 0 0", OF 1] 1 2
  show ?thesis by simp
qed

section \<open>The plaintext and ciphertext mirrors of the stake (C4)\<close>

text \<open>
  C4: in every reachable state (where \<open>plainStake\<close> is within the 64-bit domain), after
  every successful \<open>stake\<close> and every successful \<open>withdraw\<close>, the decrypted value of
  \<open>encryptedStake\<close> equals \<open>plainStake\<close>, for every account.
\<close>

theorem stake_mirror:
  assumes "reachable s"
    and "stake c v s = Inr s' \<or> withdraw transfer c amount s = Inr s'"
  shows "unat (stakedEncrypted (shield s') a) = unat (stakedPlain (shield s') a)"
proof -
  from assms(1) have "mirrored s a" by (rule reachable_mirrored)
  with assms(2) have "mirrored s' a"
    by (blast intro: mirrored_stake mirrored_withdraw)
  then show ?thesis by (simp add: mirrored_def)
qed

theorem stake_mirror_witness:
  "reachable (position 0 0 0) \<and>
   stake alice 10 (position 0 0 0) = Inr (position 10 0 0) \<and>
   unat (stakedEncrypted (shield (position 10 0 0)) alice) =
     unat (stakedPlain (shield (position 10 0 0)) alice) \<and>
   reachable (position 10 10 10) \<and>
   withdraw accepts alice 10 (position 10 10 10) = Inr (position 0 10 10) \<and>
   unat (stakedEncrypted (shield (position 0 10 10)) alice) =
     unat (stakedPlain (shield (position 0 10 10)) alice)"
proof -
  from stake_mirror [OF position_fresh_reachable disjI1 [OF stake_position], of alice]
    stake_mirror [OF position_borrowed_reachable disjI2 [OF withdraw_position], of alice]
    position_fresh_reachable stake_position position_borrowed_reachable withdraw_position
  show ?thesis by simp
qed

section \<open>Round trip (C5)\<close>

text \<open>
  C5: for every \<open>v\<close> with \<open>0 < v \<le> 2^64 - 1\<close> and every \<open>b\<close> with \<open>0 < b \<le> v\<close>, from a
  fresh account in the deployed system, with both input proofs valid for \<open>b\<close> and the
  final transfer accepted, the sequence \<open>stake(v)\<close>, \<open>borrow(b)\<close>, \<open>repay(b)\<close>,
  \<open>withdraw(v)\<close> succeeds and leaves the plain stake, the encrypted stake and the
  encrypted debt of the account at \<open>0\<close>.
\<close>

theorem round_trip:
  assumes v: "v \<noteq> 0" "v \<le> uint64_max"
    and b: "b \<noteq> 0" "unat b \<le> unat v"
    and fresh: "stakedPlain (shield s) c = 0" "stakedEncrypted (shield s) c = 0"
      "debtEncrypted (shield s) c = 0"
    and wired: "minter (czama s) = shield_address s"
    and proofs: "fromExternal c e1 p1 = Some b" "fromExternal c e2 p2 = Some b"
    and sent: "transfer c v"
  shows "\<exists>s'. and_then (and_then (and_then (stake c v s) (borrow fromExternal c e1 p1))
                 (repay fromExternal c e2 p2)) (withdraw transfer c v) = Inr s' \<and>
              stakedPlain (shield s') c = 0 \<and> stakedEncrypted (shield s') c = 0 \<and>
              debtEncrypted (shield s') c = 0"
proof -
  from v(2) have v64: "unat v < 2 ^ 64"
    by (simp add: word_le_nat_alt unat_uint64_max)
  have uv: "unat (ucast v :: 64 word) = unat v"
    by (rule unat_ucast_down [OF v64])
  have nl: "\<not> uint64_max < v"
    using v(2) by (simp add: not_less)
  have n256: "\<not> 2 ^ 256 \<le> unat v"
    using v64 by simp
  have inc: "tryIncrease 0 (ucast v) = (True, ucast v)"
    using tryIncrease_ok [of 0 "ucast v"] v64 by (simp add: uv)
  define s1 where "s1 = s\<lparr>shield := (shield s)
      \<lparr>stakedPlain := (stakedPlain (shield s))(c := v),
       stakedEncrypted := (stakedEncrypted (shield s))(c := ucast v)\<rparr>\<rparr>"
  have 1: "stake c v s = Inr s1"
    using v(1) fresh nl n256
    by (simp add: stake_def s1_def asEuint64_def inc)
  have ok: "unat (debtEncrypted (shield s1) c) + unat b < 2 ^ 64 \<and>
            debtEncrypted (shield s1) c + b \<le> stakedEncrypted (shield s1) c"
    using b(2) v64 fresh by (simp add: s1_def word_le_nat_alt uv)
  define s2 where "s2 = s1\<lparr>shield := (shield s1)
        \<lparr>debtEncrypted := (debtEncrypted (shield s1))(c := b)\<rparr>,
      czama := (czama s1)\<lparr>balances := (balances (czama s1))(c := balances (czama s1) c + b)\<rparr>\<rparr>"
  have 2: "borrow fromExternal c e1 p1 s1 = Inr s2"
    using ok v(1) wired proofs(1) fresh(3)
    by (simp add: borrow_unfold Let_def s2_def) (simp add: s1_def)
  define s3 where "s3 = s2\<lparr>shield := (shield s2)
        \<lparr>debtEncrypted := (debtEncrypted (shield s2))(c := 0)\<rparr>,
      czama := (czama s2)\<lparr>balances := (balances (czama s2))(c := balances (czama s2) c - b)\<rparr>\<rparr>"
  have 3: "repay fromExternal c e2 p2 s2 = Inr s3"
    using wired proofs(2)
    by (simp add: repay_unfold Let_def s3_def) (simp add: s2_def s1_def)
  define s4 where "s4 = s3\<lparr>shield := (shield s3)
      \<lparr>stakedPlain := (stakedPlain (shield s3))(c := 0),
       stakedEncrypted := (stakedEncrypted (shield s3))(c := 0)\<rparr>\<rparr>"
  have 4: "withdraw transfer c v s3 = Inr s4"
    using v(1) nl sent
    by (simp add: withdraw_def Let_def tryDecrease_eq asEuint64_def s4_def)
       (simp add: s3_def s2_def s1_def)
  have "and_then (and_then (and_then (stake c v s) (borrow fromExternal c e1 p1))
                 (repay fromExternal c e2 p2)) (withdraw transfer c v) = Inr s4"
    by (simp add: and_then_def 1 2 3 4)
  moreover have "stakedPlain (shield s4) c = 0 \<and> stakedEncrypted (shield s4) c = 0 \<and>
              debtEncrypted (shield s4) c = 0"
    by (simp add: s4_def s3_def)
  ultimately show ?thesis by blast
qed

theorem round_trip_witness:
  "(10 :: uint256) \<noteq> 0 \<and> 10 \<le> uint64_max \<and>
   (4 :: uint64) \<noteq> 0 \<and> unat (4 :: uint64) \<le> unat (10 :: uint256) \<and>
   stakedPlain (shield (position 0 0 0)) alice = 0 \<and>
   stakedEncrypted (shield (position 0 0 0)) alice = 0 \<and>
   debtEncrypted (shield (position 0 0 0)) alice = 0 \<and>
   minter (czama (position 0 0 0)) = shield_address (position 0 0 0) \<and>
   proves 4 alice 1 [] = Some 4 \<and> proves 4 alice 2 [] = Some 4 \<and> accepts alice 10 \<and>
   (\<exists>s'. and_then (and_then (and_then (stake alice 10 (position 0 0 0))
                 (borrow (proves 4) alice 1 []))
                 (repay (proves 4) alice 2 [])) (withdraw accepts alice 10) = Inr s' \<and>
              stakedPlain (shield s') alice = 0 \<and> stakedEncrypted (shield s') alice = 0 \<and>
              debtEncrypted (shield s') alice = 0)"
proof -
  have 1: "(10 :: uint256) \<noteq> 0" and 2: "(10 :: uint256) \<le> uint64_max"
    and 3: "(4 :: uint64) \<noteq> 0" and 4: "unat (4 :: uint64) \<le> unat (10 :: uint256)"
    by (simp_all add: uint64_max_def)
  have 5: "stakedPlain (shield (position 0 0 0)) alice = 0"
    and 6: "stakedEncrypted (shield (position 0 0 0)) alice = 0"
    and 7: "debtEncrypted (shield (position 0 0 0)) alice = 0"
    and 8: "minter (czama (position 0 0 0)) = shield_address (position 0 0 0)"
    by (simp_all add: position_def)
  have 9: "proves 4 alice 1 [] = Some 4" and 10: "proves 4 alice 2 [] = Some 4"
    by (simp_all add: proves_def)
  have 11: "accepts alice 10" by (simp add: accepts_def)
  from round_trip [where fromExternal = "proves 4" and transfer = accepts,
      OF 1 2 3 4 5 6 7 8 9 10 11]
    1 2 3 4 5 6 7 8 9 10 11
  show ?thesis by simp
qed

section \<open>Repay as an encrypted conditional update (C6)\<close>

text \<open>
  C6: for a caller with debt \<open>d\<close> and a validated amount \<open>a\<close>, in the deployed system:
  \<open>repay\<close> succeeds, stores \<open>d - a\<close> as the debt when \<open>a \<le> d\<close> and \<open>d\<close> otherwise,
  and burns \<open>a\<close> from the caller's ledger balance when \<open>a \<le> d\<close> and \<open>0\<close> otherwise.
  In particular a repay of \<open>a > d\<close> leaves the debt and the ledger balance (the whole
  state) unchanged.
\<close>

theorem repay_select:
  assumes "fromExternal c encryptedAmount inputProof = Some a"
    and "minter (czama s) = shield_address s"
  shows "repay fromExternal c encryptedAmount inputProof s =
     Inr (s\<lparr>shield := (shield s)\<lparr>debtEncrypted := (debtEncrypted (shield s))
              (c := if a \<le> debtEncrypted (shield s) c
                    then debtEncrypted (shield s) c - a else debtEncrypted (shield s) c)\<rparr>,
            czama := (czama s)\<lparr>balances := (balances (czama s))
              (c := balances (czama s) c -
                    (if a \<le> debtEncrypted (shield s) c then a else 0))\<rparr>\<rparr>) \<and>
     (debtEncrypted (shield s) c < a \<longrightarrow>
        repay fromExternal c encryptedAmount inputProof s = Inr s)"
  using assms by (simp add: repay_unfold Let_def not_le [symmetric])

theorem repay_select_witness:
  "proves 3 alice 0 [] = Some 3 \<and> proves 9 alice 0 [] = Some 9 \<and>
   minter (czama (position 10 5 5)) = shield_address (position 10 5 5) \<and>
   repay (proves 3) alice 0 [] (position 10 5 5) = Inr (position 10 2 2) \<and>
   debtEncrypted (shield (position 10 5 5)) alice < 9 \<and>
   repay (proves 9) alice 0 [] (position 10 5 5) = Inr (position 10 5 5)"
proof -
  have 1: "proves 3 alice 0 [] = Some 3" and 2: "proves 9 alice 0 [] = Some 9"
    by (simp_all add: proves_def)
  have 3: "minter (czama (position 10 5 5)) = shield_address (position 10 5 5)"
    by (simp add: position_def)
  have 4: "debtEncrypted (shield (position 10 5 5)) alice < 9"
    by (simp add: position_def)
  from repay_select [where fromExternal = "proves 3" and a = 3, OF 1 3]
    repay_select [where fromExternal = "proves 9" and a = 9, OF 2 3] 1 2 3 4
  show ?thesis by (simp add: position_def)
qed

section \<open>The plaintext gate of borrow (C7)\<close>

text \<open>
  C7: for a caller with \<open>plainStake = 0\<close>, \<open>borrow\<close> fails with \<open>NoStake\<close> and the state
  after the transaction is the state before it, whatever the input validator would say
  about the supplied ciphertext and proof: the gate is checked before the input is decoded.
\<close>

theorem borrow_NoStake:
  assumes "stakedPlain (shield s) c = 0"
  shows "borrow fromExternal c encryptedAmount inputProof s = Inl NoStake \<and>
         transact (borrow fromExternal c encryptedAmount inputProof) s = (Some NoStake, s)"
  using assms by (simp add: borrow_def transact_def)

theorem borrow_NoStake_witness:
  "stakedPlain (shield (position 0 0 0)) alice = 0 \<and>
   borrow (proves 5) alice 0 [] (position 0 0 0) = Inl NoStake \<and>
   transact (borrow (proves 5) alice 0 []) (position 0 0 0) = (Some NoStake, position 0 0 0) \<and>
   borrow (\<lambda>sender encryptedAmount inputProof. None) alice 0 [] (position 0 0 0) = Inl NoStake \<and>
   transact (borrow (\<lambda>sender encryptedAmount inputProof. None) alice 0 []) (position 0 0 0) =
     (Some NoStake, position 0 0 0)"
proof -
  have 1: "stakedPlain (shield (position 0 0 0)) alice = 0"
    by (simp add: position_def)
  from borrow_NoStake [OF 1, of "proves 5" 0 "[]"]
    borrow_NoStake [OF 1, of "\<lambda>sender encryptedAmount inputProof. None" 0 "[]"] 1
  show ?thesis by simp
qed

section \<open>Only the minter mints and burns (C8)\<close>

text \<open>
  C8: for every caller \<open>c\<close> and ledger state with minter \<open>m\<close>, \<open>mint\<close> and \<open>burnFrom\<close>
  fail with \<open>UnauthorizedMinter\<close> if and only if \<open>c \<noteq> m\<close>; when \<open>c = m\<close> they update
  the balance and return the new balance handle.
\<close>

theorem minter_only:
  "(mint c to a L = Inl (UnauthorizedMinter c) \<longleftrightarrow> c \<noteq> minter L) \<and>
   (burnFrom c from a L = Inl (UnauthorizedMinter c) \<longleftrightarrow> c \<noteq> minter L) \<and>
   (c = minter L \<longrightarrow>
      mint c to a L =
        Inr (balances L to + a, L\<lparr>balances := (balances L)(to := balances L to + a)\<rparr>) \<and>
      burnFrom c from a L =
        Inr (balances L from - a, L\<lparr>balances := (balances L)(from := balances L from - a)\<rparr>))"
  by (simp add: mint_def burnFrom_def ERC7984_mint_def ERC7984_burn_def FHE_add_def FHE_sub_def
        Let_def)

theorem minter_only_witness:
  "vault = minter (czama (position 0 0 6)) \<and>
   mint vault alice 3 (czama (position 0 0 6)) = Inr (9, czama (position 0 0 9)) \<and>
   burnFrom vault alice 3 (czama (position 0 0 6)) = Inr (3, czama (position 0 0 3)) \<and>
   alice \<noteq> minter (czama (position 0 0 6)) \<and>
   mint alice alice 3 (czama (position 0 0 6)) = Inl (UnauthorizedMinter alice) \<and>
   burnFrom alice alice 3 (czama (position 0 0 6)) = Inl (UnauthorizedMinter alice)"
proof -
  have 1: "vault = minter (czama (position 0 0 6))"
    by (simp add: position_def)
  have 2: "alice \<noteq> minter (czama (position 0 0 6))"
    by (simp add: position_def alice_def vault_def)
  from minter_only [of vault alice 3 "czama (position 0 0 6)" alice]
    minter_only [of alice alice 3 "czama (position 0 0 6)" alice] 1 2
  show ?thesis by (simp add: position_def)
qed

section \<open>The dead \<open>StakeTooLarge\<close> branch of withdraw (C9)\<close>

text \<open>
  C9: \<open>plainStake\<close> never exceeds \<open>2^64 - 1\<close> in a reachable state, and under that bound
  any amount that passes the \<open>InsufficientStake\<close> check is itself at most \<open>2^64 - 1\<close>, so
  \<open>withdraw\<close> never fails with \<open>StakeTooLarge\<close>.
\<close>

theorem withdraw_StakeTooLarge_unreachable:
  "(reachable s \<longrightarrow> stakedPlain (shield s) c \<le> uint64_max) \<and>
   (stakedPlain (shield s) c \<le> uint64_max \<longrightarrow>
      (amount \<le> stakedPlain (shield s) c \<longrightarrow> amount \<le> uint64_max) \<and>
      withdraw transfer c amount s \<noteq> Inl StakeTooLarge)"
proof -
  have "reachable s \<longrightarrow> stakedPlain (shield s) c \<le> uint64_max"
    by (blast intro: reachable_mirrored mirrored_bound)
  moreover have "stakedPlain (shield s) c \<le> uint64_max \<longrightarrow>
      (amount \<le> stakedPlain (shield s) c \<longrightarrow> amount \<le> uint64_max) \<and>
      withdraw transfer c amount s \<noteq> Inl StakeTooLarge"
    by (auto simp add: withdraw_def Let_def split: prod.splits)
  ultimately show ?thesis by blast
qed

theorem withdraw_StakeTooLarge_unreachable_witness:
  "reachable (position 10 0 0) \<and> stakedPlain (shield (position 10 0 0)) alice \<le> uint64_max \<and>
   (5 :: uint256) \<le> stakedPlain (shield (position 10 0 0)) alice \<and>
   (5 :: uint256) \<le> uint64_max \<and>
   withdraw accepts alice 5 (position 10 0 0) \<noteq> Inl StakeTooLarge"
proof -
  have 1: "(5 :: uint256) \<le> stakedPlain (shield (position 10 0 0)) alice"
    by (simp add: position_def)
  from withdraw_StakeTooLarge_unreachable [of "position 10 0 0" alice 5 accepts]
    position_staked_reachable 1
  show ?thesis by simp
qed

section \<open>Repay has no plaintext gate (C10)\<close>

text \<open>
  C10: \<open>repay\<close> has no plaintext stake or debt precondition. For a caller with a valid
  input proof, zero stake and zero debt, in the deployed system, \<open>repay\<close> succeeds, stores
  the debt unchanged (zero) and burns zero: the state is left as it was.
\<close>

theorem repay_without_position:
  assumes "fromExternal c encryptedAmount inputProof = Some a"
    and "minter (czama s) = shield_address s"
    and "stakedPlain (shield s) c = 0" and "stakedEncrypted (shield s) c = 0"
    and "debtEncrypted (shield s) c = 0"
  shows "repay fromExternal c encryptedAmount inputProof s = Inr s"
proof (cases "a = 0")
  case True
  with assms show ?thesis by (simp add: repay_unfold Let_def fun_upd_idem)
next
  case False
  then have "\<not> a \<le> 0" by (simp add: word_le_nat_alt unat_eq_0)
  with assms show ?thesis by (simp add: repay_unfold Let_def fun_upd_idem)
qed

theorem repay_without_position_witness:
  "proves 5 alice 0 [] = Some 5 \<and>
   minter (czama (position 0 0 0)) = shield_address (position 0 0 0) \<and>
   stakedPlain (shield (position 0 0 0)) alice = 0 \<and>
   stakedEncrypted (shield (position 0 0 0)) alice = 0 \<and>
   debtEncrypted (shield (position 0 0 0)) alice = 0 \<and>
   repay (proves 5) alice 0 [] (position 0 0 0) = Inr (position 0 0 0)"
proof -
  have 1: "proves 5 alice 0 [] = Some 5" by (simp add: proves_def)
  have 2: "minter (czama (position 0 0 0)) = shield_address (position 0 0 0)"
    and 3: "stakedPlain (shield (position 0 0 0)) alice = 0"
    and 4: "stakedEncrypted (shield (position 0 0 0)) alice = 0"
    and 5: "debtEncrypted (shield (position 0 0 0)) alice = 0"
    by (simp_all add: position_def)
  from repay_without_position [where fromExternal = "proves 5" and a = 5, OF 1 2 3 4 5]
    1 2 3 4 5
  show ?thesis by simp
qed

end
